theory Spec2Isabelle
  imports Main "HOL-Library.Word"
begin

section \<open>snputils: the PGEN writer (\<^verbatim>\<open>snputils/snp/io/write/pgen.py\<close>)\<close>

text \<open>
  The module writes a genotype object as three files: a tab-separated variant table
  (\<^verbatim>\<open>.pvar\<close>, optionally zstd-compressed), a tab-separated sample table (\<^verbatim>\<open>.psam\<close>) and
  the binary genotype matrix, which it hands row by row to the \<^verbatim>\<open>pgenlib\<close> writer.
  Python text is represented by its UTF-8 bytes, so \<^verbatim>\<open>str.encode('utf-8')\<close> is the
  identity on the model's strings.
\<close>

subsection \<open>Errors\<close>

datatype error =
    ValueError
  | IndexError
  | ShapeError
  | ComputeError
  | OSError
  | PgenlibError

subsection \<open>\<^verbatim>\<open>pathlib.Path\<close> (POSIX flavour)\<close>

text \<open>
  A path is kept parsed, as \<^verbatim>\<open>pathlib\<close> keeps it: the root (\<^verbatim>\<open>''\<close>, \<^verbatim>\<open>'/'\<close> or \<^verbatim>\<open>'//'\<close>)
  and the components, with empty and \<^verbatim>\<open>'.'\<close> components dropped by the constructor.
\<close>

record PurePath =
  root :: string
  parts :: "string list"

text \<open>\<^verbatim>\<open>s.split(c)\<close>: the pieces of \<open>s\<close> between occurrences of \<open>c\<close>; never empty.\<close>

fun split_sep :: "char \<Rightarrow> string \<Rightarrow> string list" where
  "split_sep c [] = [[]]"
| "split_sep c (x # xs) =
     (if x = c then [] # split_sep c xs
      else (x # hd (split_sep c xs)) # tl (split_sep c xs))"

text \<open>\<^verbatim>\<open>sep.join(xs)\<close>.\<close>

fun join :: "string \<Rightarrow> string list \<Rightarrow> string" where
  "join sep [] = []"
| "join sep [x] = x"
| "join sep (x # y # ys) = x @ sep @ join sep (y # ys)"

text \<open>
  \<^verbatim>\<open>posixpath.splitroot\<close>: exactly two leading slashes are kept as the root \<^verbatim>\<open>'//'\<close>, one
  or more than two collapse to \<^verbatim>\<open>'/'\<close>.
\<close>

definition splitroot :: "string \<Rightarrow> string" where
  "splitroot s =
     (if take 1 s \<noteq> ''/'' then ''''
      else if take 2 s = ''//'' \<and> take 3 s \<noteq> ''///'' then ''//''
      else ''/'')"

definition Path :: "string \<Rightarrow> PurePath" where
  "Path s = \<lparr> root = splitroot s,
              parts = filter (\<lambda>p. p \<noteq> '''' \<and> p \<noteq> ''.'') (split_sep (CHR ''/'') s) \<rparr>"

text \<open>\<^verbatim>\<open>str(path)\<close>; the empty path prints as \<^verbatim>\<open>'.'\<close>.\<close>

definition path_str :: "PurePath \<Rightarrow> string" where
  "path_str p =
     (if root p = '''' \<and> parts p = [] then ''.''
      else root p @ join ''/'' (parts p))"

text \<open>\<^verbatim>\<open>path.name\<close>: the final component, \<^verbatim>\<open>''\<close> when there is none.\<close>

definition name :: "PurePath \<Rightarrow> string" where
  "name p = (if parts p = [] then '''' else last (parts p))"

text \<open>\<^verbatim>\<open>s.rfind(c)\<close>, with \<open>None\<close> for Python's \<open>-1\<close>.\<close>

fun rfind :: "char \<Rightarrow> string \<Rightarrow> nat option" where
  "rfind c [] = None"
| "rfind c (x # xs) =
     (case rfind c xs of
        Some i \<Rightarrow> Some (Suc i)
      | None \<Rightarrow> if x = c then Some 0 else None)"

text \<open>
  \<^verbatim>\<open>path.suffix\<close>: from the last dot of the name on, provided that dot is neither the
  first nor the last character of the name (\<^verbatim>\<open>0 < i < len(name) - 1\<close>).
\<close>

definition suffix :: "PurePath \<Rightarrow> string" where
  "suffix p =
     (case rfind (CHR ''.'') (name p) of
        None \<Rightarrow> ''''
      | Some i \<Rightarrow> if 0 < i \<and> i + 1 < length (name p) then drop i (name p) else '''')"

text \<open>
  \<^verbatim>\<open>path.with_suffix(s)\<close>: rejects a suffix holding a separator, a non-empty suffix not
  starting with a dot, the suffix \<^verbatim>\<open>'.'\<close>, and a path with an empty name; otherwise the
  old suffix of the name is replaced.
\<close>

definition with_suffix :: "PurePath \<Rightarrow> string \<Rightarrow> error + PurePath" where
  "with_suffix p s =
     (if CHR ''/'' \<in> set s then Inl ValueError
      else if (s \<noteq> '''' \<and> take 1 s \<noteq> ''.'') \<or> s = ''.'' then Inl ValueError
      else if name p = '''' then Inl ValueError
      else Inr (p\<lparr> parts := butlast (parts p) @
                  [take (length (name p) - length (suffix p)) (name p) @ s] \<rparr>))"

subsection \<open>\<^verbatim>\<open>PGENWriter.write\<close>: the base path (lines 36--38)\<close>

definition file_extensions :: "string list" where
  "file_extensions = [''.pgen'', ''.psam'', ''.pvar'', ''.pvar.zst'']"

text \<open>
  \<^verbatim>\<open>if self.__filename.suffix in file_extensions:
      self.__filename = self.__filename.with_suffix('')\<close>
\<close>

definition strip_extension :: "PurePath \<Rightarrow> error + PurePath" where
  "strip_extension p =
     (if suffix p \<in> set file_extensions then with_suffix p '''' else Inr p)"

text \<open>The base path as \<^verbatim>\<open>write\<close> prints it into the output names, from the caller's string.\<close>

definition derived_base :: "string \<Rightarrow> error + string" where
  "derived_base filename = map_sum id path_str (strip_extension (Path filename))"

subsection \<open>numpy arrays\<close>

text \<open>
  An array is its shape and its elements in C (row-major) order; numpy keeps the number
  of elements equal to the product of the shape.
\<close>

record 'a ndarray =
  shape :: "nat list"
  elems :: "'a list"

definition wf_ndarray :: "'a ndarray \<Rightarrow> bool" where
  "wf_ndarray a = (length (elems a) = prod_list (shape a))"

definition ndim :: "'a ndarray \<Rightarrow> nat" where
  "ndim a = length (shape a)"

text \<open>\<^verbatim>\<open>a.reshape(sh)\<close>: the same elements under a new shape of the same size.\<close>

definition reshape :: "'a ndarray \<Rightarrow> nat list \<Rightarrow> error + 'a ndarray" where
  "reshape a sh =
     (if prod_list sh = length (elems a) then Inr (a\<lparr> shape := sh \<rparr>) else Inl ValueError)"

text \<open>
  \<^verbatim>\<open>a[i]\<close> for an index within the first axis: the array of the remaining axes that holds
  the \<open>i\<close>-th block of the elements. For a 2-dimensional array this is row \<open>i\<close>, a
  1-dimensional array; for a 3-dimensional array it is a 2-dimensional one.
\<close>

definition getitem :: "'a ndarray \<Rightarrow> nat \<Rightarrow> 'a ndarray" where
  "getitem a i =
     (let k = prod_list (tl (shape a))
      in \<lparr> shape = tl (shape a), elems = take k (drop (i * k) (elems a)) \<rparr>)"

text \<open>
  \<^verbatim>\<open>a[:, 0]\<close>: needs two axes and a non-empty second one (\<^verbatim>\<open>IndexError\<close> otherwise). For a
  2-dimensional array the result is a flat column of its first entries per row. With more
  than two axes the result has as many entries, each of them an array itself.
\<close>

datatype 'a column = Flat "'a list" | Nested nat

definition column0 :: "'a ndarray \<Rightarrow> error + 'a column" where
  "column0 a =
     (case shape a of
        n # k # rest \<Rightarrow>
          if k = 0 then Inl IndexError
          else if rest \<noteq> [] then Inr (Nested n)
          else Inr (Flat (map (\<lambda>i. elems a ! (i * k)) [0..<n]))
      | _ \<Rightarrow> Inl IndexError)"

text \<open>
  \<^verbatim>\<open>.astype(np.int32)\<close> on integers: numpy's unchecked C cast, which keeps the low 32 bits
  and reads them as two's complement.
\<close>

definition int32 :: "int \<Rightarrow> int" where
  "int32 x = sint (word_of_int x :: 32 word)"

definition astype_int32 :: "int ndarray \<Rightarrow> int ndarray" where
  "astype_int32 a = a\<lparr> elems := map int32 (elems a) \<rparr>"

subsection \<open>The genotype object and the writer\<close>

text \<open>
  Modelled from the spec: the class \<^verbatim>\<open>SNPObject\<close> (\<^verbatim>\<open>snputils/snp/genobj/snpobj.py\<close>), which
  this module imports. It carries the genotype matrix (variants by samples, with an allele
  axis when phased), the ordered variant table (chromosome, position, id, ref, alt,
  filter-pass flag) and the ordered sample list, under the attribute names the writer
  reads; each is a numpy array, the metadata arrays holding strings, integers or
  booleans.
\<close>

datatype cell = CStr string | CInt int | CBool bool

record SNPObject =
  calldata_gt :: "int ndarray"
  samples :: "cell list"
  variants_chrom :: "cell list"
  variants_pos :: "cell list"
  variants_id :: "cell list"
  variants_ref :: "cell list"
  variants_alt :: "cell ndarray"
  variants_filter_pass :: "cell list"

text \<open>
  \<^verbatim>\<open>PGENWriter\<close>: \<^verbatim>\<open>__init__\<close> stores the object and \<^verbatim>\<open>Path(filename)\<close>; the attribute
  \<^verbatim>\<open>__file_extension\<close> does not exist until \<^verbatim>\<open>write\<close> assigns it.
\<close>

record PGENWriter =
  snpobj :: SNPObject
  filename :: PurePath
  file_extension :: "string option"

definition PGENWriter_init :: "SNPObject \<Rightarrow> string \<Rightarrow> PGENWriter" where
  "PGENWriter_init obj fname =
     \<lparr> snpobj = obj, filename = Path fname, file_extension = None \<rparr>"

subsection \<open>The outside world\<close>

text \<open>
  The files written through Python and polars, and the calls made into \<^verbatim>\<open>pgenlib\<close>, in
  order. \<^verbatim>\<open>pgenlib\<close> opens exactly the file name its constructor is given.
\<close>

datatype file_data = TextFile string | BinaryFile string

text \<open>A value of the dictionary given to \<^verbatim>\<open>pl.DataFrame\<close>: an array or a scalar.\<close>

datatype col_arg = Array "cell list" | Scalar cell

type_synonym frame = "(string \<times> cell list) list"

datatype pg_call =
    PgenWriter_new string nat nat bool
      \<comment> \<open>\<^verbatim>\<open>pg.PgenWriter(filename, sample_ct, variant_ct, hardcall_phase_present)\<close>\<close>
  | append_alleles "int ndarray" bool
      \<comment> \<open>\<^verbatim>\<open>writer.append_alleles(row, all_phased)\<close>\<close>
  | PgenWriter_exit
      \<comment> \<open>leaving the \<^verbatim>\<open>with\<close> block, which closes the writer\<close>

record world =
  files :: "string \<rightharpoonup> file_data"
  pgenlib_calls :: "pg_call list"

text \<open>
  What the libraries and the operating system decide: which paths can be opened for
  writing, which \<^verbatim>\<open>pgenlib\<close> call raises (given the calls before it), the zstd codec, how
  polars writes a string field that needs quoting, and its two corner cases that differ
  between versions (scalars meeting only zero-length columns, and the CSV text of a
  frame without columns).
\<close>

record env =
  can_open :: "string \<Rightarrow> bool"
  pgenlib_raises :: "pg_call list \<Rightarrow> pg_call \<Rightarrow> bool"
  zstd_compress :: "string \<Rightarrow> string"
  csv_quote :: "string \<Rightarrow> string"
  frame_of_scalars_on_empty :: "(string \<times> col_arg) list \<Rightarrow> error + frame"
  csv_no_columns :: string

definition encode_utf8 :: "string \<Rightarrow> string" where
  "encode_utf8 s = s"

text \<open>\<^verbatim>\<open>with open(path, mode) as f: f.write(data)\<close>, and polars writing to a path.\<close>

definition open_write :: "env \<Rightarrow> string \<Rightarrow> file_data \<Rightarrow> world \<Rightarrow> error option \<times> world" where
  "open_write E path d w =
     (if can_open E path then (None, w\<lparr> files := (files w)(path \<mapsto> d) \<rparr>)
      else (Some OSError, w))"

text \<open>A call into \<^verbatim>\<open>pgenlib\<close>: recorded, then it returns or raises.\<close>

definition pg :: "env \<Rightarrow> pg_call \<Rightarrow> world \<Rightarrow> error option \<times> world" where
  "pg E c w =
     (if pgenlib_raises E (pgenlib_calls w) c then Some PgenlibError else None,
      w\<lparr> pgenlib_calls := pgenlib_calls w @ [c] \<rparr>)"

subsection \<open>polars: building a frame and writing it as CSV\<close>

text \<open>
  \<^verbatim>\<open>pl.DataFrame(dict)\<close>: with a column of positive length present, every array must have
  that length (\<^verbatim>\<open>ShapeError\<close> otherwise) and a scalar is repeated to it. With only
  zero-length arrays the frame has its columns and no rows; with only scalars it has one
  row.
\<close>

definition array_len :: "(string \<times> col_arg) list \<Rightarrow> nat" where
  "array_len d =
     fold max (map (\<lambda>(n, v). case v of Array xs \<Rightarrow> length xs | Scalar c \<Rightarrow> 0) d) 0"

definition DataFrame :: "env \<Rightarrow> (string \<times> col_arg) list \<Rightarrow> error + frame" where
  "DataFrame E d =
     (if array_len d > 0 then
        (if list_all (\<lambda>(n, v). case v of Array xs \<Rightarrow> length xs = array_len d
                                        | Scalar c \<Rightarrow> True) d
         then Inr (map (\<lambda>(n, v). (n, case v of Array xs \<Rightarrow> xs
                                            | Scalar c \<Rightarrow> replicate (array_len d) c)) d)
         else Inl ShapeError)
      else if list_all (\<lambda>(n, v). case v of Array xs \<Rightarrow> True | Scalar c \<Rightarrow> False) d then
        Inr (map (\<lambda>(n, v). (n, [])) d)
      else if list_all (\<lambda>(n, v). case v of Array xs \<Rightarrow> False | Scalar c \<Rightarrow> True) d then
        Inr (map (\<lambda>(n, v). (n, case v of Array xs \<Rightarrow> xs | Scalar c \<Rightarrow> [c])) d)
      else frame_of_scalars_on_empty E d)"

definition height :: "frame \<Rightarrow> nat" where
  "height df = (case df of [] \<Rightarrow> 0 | (n, col) # _ \<Rightarrow> length col)"

text \<open>Decimal digits of an integer, as polars (and Python) print it.\<close>

fun str_nat :: "nat \<Rightarrow> string" where
  "str_nat n =
     (if n < 10 then [''0123456789'' ! n]
      else str_nat (n div 10) @ [''0123456789'' ! (n mod 10)])"

declare str_nat.simps [simp del]

definition str_int :: "int \<Rightarrow> string" where
  "str_int i = (if i < 0 then ''-'' @ str_nat (nat (- i)) else str_nat (nat i))"

text \<open>
  A string field is written as it is unless it needs quoting (\<^verbatim>\<open>quote_style='necessary'\<close>):
  it is empty or holds the separator, a quote, a line feed or a carriage return.
\<close>

definition plain :: "string \<Rightarrow> bool" where
  "plain s = (s \<noteq> [] \<and> set s \<inter> {CHR 0x09, CHR 0x0A, CHR 0x0D, CHR 0x22} = {})"

definition csv_str :: "env \<Rightarrow> string \<Rightarrow> string" where
  "csv_str E s = (if plain s then s else csv_quote E s)"

fun csv_cell :: "env \<Rightarrow> cell \<Rightarrow> string" where
  "csv_cell E (CStr s) = csv_str E s"
| "csv_cell E (CInt i) = str_int i"
| "csv_cell E (CBool b) = (if b then ''true'' else ''false'')"

definition csv_line :: "string list \<Rightarrow> string" where
  "csv_line fs = join [CHR 0x09] fs @ [CHR 0x0A]"

text \<open>
  \<^verbatim>\<open>df.write_csv(..., separator="\t")\<close>: the header line with the column names, then one
  line per row.
\<close>

definition write_csv :: "env \<Rightarrow> frame \<Rightarrow> string" where
  "write_csv E df =
     (if df = [] then csv_no_columns E
      else csv_line (map (\<lambda>(n, col). csv_str E n) df) @
           concat (map (\<lambda>i. csv_line (map (\<lambda>(n, col). csv_cell E (col ! i)) df))
                       [0..<height df]))"

subsection \<open>\<^verbatim>\<open>write_pvar\<close>, \<^verbatim>\<open>write_psam\<close>, \<^verbatim>\<open>write_pgen\<close> and \<^verbatim>\<open>write\<close>\<close>

text \<open>
  The variant table of \<^verbatim>\<open>write_pvar\<close>, as far as it can be written. The ALT column is
  \<^verbatim>\<open>variants_alt[:, 0]\<close>, taken while the dictionary is built; then the frame is built. A
  nested ALT column takes part in the frame's length check like any column of as many
  entries (what the entries are plays no part in it), and polars then refuses to write the
  frame as CSV (\<^verbatim>\<open>ComputeError\<close>), before any file is opened.
\<close>

definition pvar_columns :: "SNPObject \<Rightarrow> cell list \<Rightarrow> (string \<times> col_arg) list" where
  "pvar_columns obj alt =
     [(''#CHROM'', Array (variants_chrom obj)),
      (''POS'', Array (variants_pos obj)),
      (''ID'', Array (variants_id obj)),
      (''REF'', Array (variants_ref obj)),
      (''ALT'', Array alt),
      (''FILTER'', Array (variants_filter_pass obj))]"

definition pvar_frame :: "env \<Rightarrow> SNPObject \<Rightarrow> error + frame" where
  "pvar_frame E obj =
     (case column0 (variants_alt obj) of
        Inl e \<Rightarrow> Inl e
      | Inr (Flat alt) \<Rightarrow> DataFrame E (pvar_columns obj alt)
      | Inr (Nested n) \<Rightarrow>
          (case DataFrame E (pvar_columns obj (replicate n (CStr []))) of
             Inl e \<Rightarrow> Inl e
           | Inr df \<Rightarrow> Inl ComputeError))"

definition write_pvar :: "env \<Rightarrow> PGENWriter \<Rightarrow> bool \<Rightarrow> world \<Rightarrow> error option \<times> world" where
  "write_pvar E self vzs w =
     (let output_filename =
            (if vzs then (path_str (filename self) @ ''.pvar'') @ ''.zst''
             else path_str (filename self) @ ''.pvar'')
      in case pvar_frame E (snpobj self) of
           Inl e \<Rightarrow> (Some e, w)
         | Inr df \<Rightarrow>
             (let csv_data = write_csv E df
              in if vzs then
                   open_write E output_filename
                     (BinaryFile (zstd_compress E (encode_utf8 csv_data))) w
                 else open_write E output_filename (TextFile csv_data) w))"

definition psam_frame :: "env \<Rightarrow> SNPObject \<Rightarrow> error + frame" where
  "psam_frame E obj =
     DataFrame E [(''IID'', Array (samples obj)), (''SEX'', Scalar (CStr ''NA''))]"

definition write_psam :: "env \<Rightarrow> PGENWriter \<Rightarrow> world \<Rightarrow> error option \<times> world" where
  "write_psam E self w =
     (case psam_frame E (snpobj self) of
        Inl e \<Rightarrow> (Some e, w)
      | Inr df \<Rightarrow>
          open_write E (path_str (filename self) @ ''.psam'') (TextFile (write_csv E df)) w)"

text \<open>
  \<^verbatim>\<open>for variant_index in range(num_variants):
      writer.append_alleles(flat_genotypes[variant_index].astype(np.int32), all_phased=phased)\<close>
  over the remaining indices; the first call that raises ends the loop.
\<close>

fun append_loop ::
  "env \<Rightarrow> int ndarray \<Rightarrow> bool \<Rightarrow> nat list \<Rightarrow> world \<Rightarrow> error option \<times> world" where
  "append_loop E flat_genotypes phased [] w = (None, w)"
| "append_loop E flat_genotypes phased (variant_index # rest) w =
     (case pg E (append_alleles (astype_int32 (getitem flat_genotypes variant_index)) phased) w of
        (Some e, w') \<Rightarrow> (Some e, w')
      | (None, w') \<Rightarrow> append_loop E flat_genotypes phased rest w')"

text \<open>
  Lines 104--113: the dimensions and the flattened matrix. Unpacking the shape of an array
  that has neither two nor three axes raises \<^verbatim>\<open>ValueError\<close>.
\<close>

definition flatten_genotypes :: "int ndarray \<Rightarrow> error + (nat \<times> nat \<times> int ndarray)" where
  "flatten_genotypes gt =
     (if ndim gt = 3 then
        (case shape gt of
           [num_variants, num_samples, num_alleles] \<Rightarrow>
             (case reshape gt [num_variants, num_samples * num_alleles] of
                Inl e \<Rightarrow> Inl e
              | Inr flat \<Rightarrow> Inr (num_variants, num_samples, flat))
         | _ \<Rightarrow> Inl ValueError)
      else
        (case shape gt of
           [num_variants, num_samples] \<Rightarrow> Inr (num_variants, num_samples, gt)
         | _ \<Rightarrow> Inl ValueError))"

text \<open>
  Lines 115--124. The writer is constructed on \<^verbatim>\<open>str(self.__filename)\<close>. The \<^verbatim>\<open>with\<close> block
  closes it whether or not the loop raised; an error raised while closing is the one
  that propagates.
\<close>

definition write_pgen :: "env \<Rightarrow> PGENWriter \<Rightarrow> world \<Rightarrow> error option \<times> world" where
  "write_pgen E self w =
     (let phased = (ndim (calldata_gt (snpobj self)) = 3)
      in case flatten_genotypes (calldata_gt (snpobj self)) of
           Inl e \<Rightarrow> (Some e, w)
         | Inr (num_variants, num_samples, flat_genotypes) \<Rightarrow>
             (case pg E (PgenWriter_new (encode_utf8 (path_str (filename self)))
                           num_samples num_variants phased) w of
                (Some e, w1) \<Rightarrow> (Some e, w1)
              | (None, w1) \<Rightarrow>
                  (case append_loop E flat_genotypes phased [0..<num_variants] w1 of
                     (r, w2) \<Rightarrow>
                       (case pg E PgenWriter_exit w2 of
                          (Some e, w3) \<Rightarrow> (Some e, w3)
                        | (None, w3) \<Rightarrow> (r, w3)))))"

text \<open>\<^verbatim>\<open>PGENWriter.write\<close> (the bare name is an Isar keyword).\<close>

definition PGENWriter_write ::
  "env \<Rightarrow> PGENWriter \<Rightarrow> bool \<Rightarrow> world \<Rightarrow> error option \<times> PGENWriter \<times> world" where
  "PGENWriter_write E self vzs w =
     (case strip_extension (filename self) of
        Inl e \<Rightarrow> (Some e, self, w)
      | Inr f \<Rightarrow>
          (let self' = self\<lparr> filename := f, file_extension := Some ''.pgen'' \<rparr>
           in case write_pvar E self' vzs w of
                (Some e, w1) \<Rightarrow> (Some e, self', w1)
              | (None, w1) \<Rightarrow>
                  (case write_psam E self' w1 of
                     (Some e, w2) \<Rightarrow> (Some e, self', w2)
                   | (None, w2) \<Rightarrow>
                       (case write_pgen E self' w2 of
                          (r, w3) \<Rightarrow> (r, self', w3)))))"

subsection \<open>Reading the output back\<close>

text \<open>
  Tab-separated text split into records and fields: the lines before the final line
  feed, each split at its tabs.
\<close>

definition tsv_rows :: "string \<Rightarrow> string list list" where
  "tsv_rows text = map (split_sep (CHR 0x09)) (butlast (split_sep (CHR 0x0A) text))"

definition tsv_safe :: "string \<Rightarrow> bool" where
  "tsv_safe s = (CHR 0x09 \<notin> set s \<and> CHR 0x0A \<notin> set s)"

text \<open>
  The rows of a matrix along its first axis: \<open>n\<close> consecutive blocks of \<open>k\<close> elements, each
  as a 1-dimensional array (a row of a 3-dimensional array flattened to one axis).
\<close>

fun chunks :: "nat \<Rightarrow> nat \<Rightarrow> 'a list \<Rightarrow> 'a list list" where
  "chunks 0 k xs = []"
| "chunks (Suc n) k xs = take k xs # chunks n k (drop k xs)"

definition matrix_rows :: "'a ndarray \<Rightarrow> 'a ndarray list" where
  "matrix_rows a =
     map (\<lambda>r. \<lparr> shape = [prod_list (tl (shape a))], elems = r \<rparr>)
       (chunks (hd (shape a)) (prod_list (tl (shape a))) (elems a))"

text \<open>The sample counts that the constructor calls of a sequence of calls declared.\<close>

fun declared_sample_cts :: "pg_call list \<Rightarrow> nat list" where
  "declared_sample_cts [] = []"
| "declared_sample_cts (PgenWriter_new f ns nv ph # cs) = ns # declared_sample_cts cs"
| "declared_sample_cts (c # cs) = declared_sample_cts cs"

text \<open>
  A session with the binary writer, call by call: the calls of a list that are made when
  the first one that raises ends the list, and whether one of them raises. Each call is
  judged against all calls before it.
\<close>

fun run_calls :: "env \<Rightarrow> pg_call list \<Rightarrow> pg_call list \<Rightarrow> pg_call list" where
  "run_calls E h [] = []"
| "run_calls E h (c # cs) =
     (if pgenlib_raises E h c then [c] else c # run_calls E (h @ [c]) cs)"

fun any_raises :: "env \<Rightarrow> pg_call list \<Rightarrow> pg_call list \<Rightarrow> bool" where
  "any_raises E h [] = False"
| "any_raises E h (c # cs) = (pgenlib_raises E h c \<or> any_raises E (h @ [c]) cs)"

text \<open>
  The session that consists of nothing but calls into the library: construct the writer;
  if that raised, stop; otherwise hand over the rows in order up to the first one the
  library rejects, and close. It ends in an error exactly when a call raised.
\<close>

definition pgen_session ::
  "env \<Rightarrow> pg_call \<Rightarrow> pg_call list \<Rightarrow> world \<Rightarrow> error option \<times> world" where
  "pgen_session E new appends w =
     (let h = pgenlib_calls w;
          made = (if pgenlib_raises E h new then [new]
                  else new # run_calls E (h @ [new]) appends @ [PgenWriter_exit])
      in (if any_raises E h made then Some PgenlibError else None,
          w\<lparr> pgenlib_calls := h @ made \<rparr>))"

subsection \<open>Concrete inputs\<close>

text \<open>An environment in which every path opens and no library call raises.\<close>

definition ok_env :: env where
  "ok_env = \<lparr> can_open = (\<lambda>p. True),
               pgenlib_raises = (\<lambda>h c. False),
               zstd_compress = (\<lambda>b. ''(zstd)'' @ b),
               csv_quote = (\<lambda>s. [CHR 0x22] @ s @ [CHR 0x22]),
               frame_of_scalars_on_empty = (\<lambda>d. Inr []),
               csv_no_columns = [] \<rparr>"

text \<open>
  An environment whose binary writer is strict: \<^verbatim>\<open>append_alleles\<close> reads two allele codes
  per sample of the \<^verbatim>\<open>sample_ct\<close> it was constructed with (what the phased branch hands
  it), and raises unless the row is a 1-dimensional array of exactly that many codes, each
  of them 0 or 1. Nothing else fails.
\<close>

definition strict_env :: env where
  "strict_env =
     ok_env\<lparr> pgenlib_raises :=
       (\<lambda>h c. case c of
                 append_alleles row ph \<Rightarrow>
                   \<not> (declared_sample_cts h \<noteq> [] \<and>
                      shape row = [2 * last (declared_sample_cts h)] \<and>
                      length (elems row) = 2 * last (declared_sample_cts h) \<and>
                      list_all (\<lambda>v. v = 0 \<or> v = 1) (elems row))
               | _ \<Rightarrow> False) \<rparr>"

definition empty_world :: world where
  "empty_world = \<lparr> files = Map.empty, pgenlib_calls = [] \<rparr>"

text \<open>Two samples, one variant, unphased row \<open>[0, 1]\<close>.\<close>

definition obj_unphased :: SNPObject where
  "obj_unphased =
     \<lparr> calldata_gt = \<lparr> shape = [1, 2], elems = [0, 1] \<rparr>,
       samples = [CStr ''s1'', CStr ''s2''],
       variants_chrom = [CStr ''1''],
       variants_pos = [CInt 100],
       variants_id = [CStr ''rs1''],
       variants_ref = [CStr ''A''],
       variants_alt = \<lparr> shape = [1, 2], elems = [CStr ''G'', CStr ''T''] \<rparr>,
       variants_filter_pass = [CBool True] \<rparr>"

text \<open>Two samples, two variants, phased rows \<open>[[0,0],[1,1]]\<close> and \<open>[[0,1],[1,0]]\<close>.\<close>

definition obj_phased :: SNPObject where
  "obj_phased =
     \<lparr> calldata_gt = \<lparr> shape = [2, 2, 2], elems = [0, 0, 1, 1, 0, 1, 1, 0] \<rparr>,
       samples = [CStr ''s1'', CStr ''s2''],
       variants_chrom = [CStr ''1'', CStr ''1''],
       variants_pos = [CInt 100, CInt 205],
       variants_id = [CStr ''rs1'', CStr ''rs2''],
       variants_ref = [CStr ''A'', CStr ''C''],
       variants_alt = \<lparr> shape = [2, 2], elems = [CStr ''G'', CStr ''T'', CStr ''T'', CStr ''A''] \<rparr>,
       variants_filter_pass = [CBool True, CBool False] \<rparr>"

text \<open>
  One variant, two samples, phased, in a 64-bit matrix: \<open>[[[0, 2^32 + 1], [0, 1]]]\<close>.
\<close>

definition obj_wide :: SNPObject where
  "obj_wide =
     obj_unphased\<lparr> calldata_gt := \<lparr> shape = [1, 2, 2], elems = [0, 4294967297, 0, 1] \<rparr> \<rparr>"

text \<open>The unphased object with a position column one entry too long.\<close>

definition obj_ragged :: SNPObject where
  "obj_ragged = obj_unphased\<lparr> variants_pos := [CInt 100, CInt 101] \<rparr>"

text \<open>The same with the out-of-alphabet call \<open>5\<close>: \<open>[[[0, 5], [0, 1]]]\<close>.\<close>

definition obj_five :: SNPObject where
  "obj_five =
     obj_unphased\<lparr> calldata_gt := \<lparr> shape = [1, 2, 2], elems = [0, 5, 0, 1] \<rparr> \<rparr>"

section \<open>Properties\<close>

subsection \<open>Paths\<close>

lemmas path_defs =
  derived_base_def strip_extension_def Path_def splitroot_def suffix_def name_def
  file_extensions_def path_str_def with_suffix_def

lemmas writer_defs =
  PGENWriter_write_def PGENWriter_init_def write_pvar_def write_psam_def write_pgen_def
  pvar_frame_def pvar_columns_def psam_frame_def column0_def DataFrame_def array_len_def
  open_write_def
  pg_def flatten_genotypes_def ndim_def getitem_def astype_int32_def int32_def
  encode_utf8_def

lemma rfind_None: "rfind c s = None \<Longrightarrow> c \<notin> set s"
  by (induction s) (auto split: option.splits if_splits)

lemma rfind_Some: "rfind c s = Some i \<Longrightarrow> i < length s \<and> c \<notin> set (drop (Suc i) s)"
  by (induction s arbitrary: i) (auto split: option.splits if_splits dest: rfind_None)

lemma suffix_one_dot: "suffix p = x # xs \<Longrightarrow> CHR ''.'' \<notin> set xs"
  unfolding suffix_def
  by (auto split: option.splits if_splits dest!: rfind_Some
        simp: drop_Suc tl_drop [symmetric] simp del: tl_drop)

text \<open>
  The suffix of a path holds one dot only, so the two-dot entry of \<open>file_extensions\<close> is
  never matched.
\<close>

lemma suffix_never_pvar_zst: "suffix p \<noteq> ''.pvar.zst''"
  using suffix_one_dot [of p "CHR ''.''" "''pvar.zst''"] by auto

subsection \<open>Splitting and joining\<close>

lemma split_sep_notin: "c \<notin> set s \<Longrightarrow> split_sep c s = [s]"
  by (induction s) auto

lemma split_sep_app: "c \<notin> set s \<Longrightarrow> split_sep c (s @ c # t) = s # split_sep c t"
  by (induction s) auto

lemma split_sep_join:
  "fs \<noteq> [] \<Longrightarrow> list_all (\<lambda>f. c \<notin> set f) fs \<Longrightarrow> split_sep c (join [c] fs) = fs"
  by (induction "[c]" fs rule: join.induct) (auto simp: split_sep_notin split_sep_app)

lemma set_join: "set (join sep fs) \<subseteq> set sep \<union> \<Union> (set ` set fs)"
  by (induction sep fs rule: join.induct) auto

lemma split_lines:
  "list_all (\<lambda>l. c \<notin> set l) ls \<Longrightarrow> split_sep c (concat (map (\<lambda>l. l @ [c]) ls)) = ls @ [[]]"
  by (induction ls) (auto simp: split_sep_app)

subsection \<open>Rows of a matrix\<close>

lemma chunks_length: "length (chunks n k xs) = n"
  by (induction n arbitrary: xs) auto

lemma chunks_nth: "i < n \<Longrightarrow> chunks n k xs ! i = take k (drop (i * k) xs)"
proof (induction n arbitrary: xs i)
  case 0 then show ?case by simp
next
  case (Suc n)
  show ?case
  proof (cases i)
    case 0 then show ?thesis by simp
  next
    case (Suc j)
    with Suc.prems have "j < n" by simp
    then show ?thesis using Suc.IH [of j "drop k xs"] Suc by (simp add: add.commute)
  qed
qed

lemma chunks_map: "map (\<lambda>i. take k (drop (i * k) xs)) [0..<n] = chunks n k xs"
  by (rule nth_equalityI) (simp_all add: chunks_length chunks_nth)

lemma chunks_concat: "length xs = n * k \<Longrightarrow> concat (chunks n k xs) = xs"
  by (induction n arbitrary: xs) auto

text \<open>
  For a well-formed matrix the rows are a partition of its elements into blocks of equal
  length.
\<close>

lemma chunks_lengths: "length xs = n * k \<Longrightarrow> list_all (\<lambda>r. length r = k) (chunks n k xs)"
  by (induction n arbitrary: xs) auto

subsection \<open>The base path\<close>

text \<open>
  C1. The base path is meant to come out the same from \<^verbatim>\<open>"x"\<close>, \<^verbatim>\<open>"x.pgen"\<close> and
  \<^verbatim>\<open>"x.pvar.zst"\<close>. The code compares \<^verbatim>\<open>Path.suffix\<close>, the last suffix only, with the
  extensions: \<^verbatim>\<open>"x"\<close> and \<^verbatim>\<open>"x.pgen"\<close> give the base \<^verbatim>\<open>"x"\<close>, but \<^verbatim>\<open>"x.pvar.zst"\<close> has the
  suffix \<^verbatim>\<open>".zst"\<close>, nothing is stripped, and the base stays \<^verbatim>\<open>"x.pvar.zst"\<close>.
\<close>

theorem derived_base_keeps_pvar_zst:
  "derived_base ''x'' = Inr ''x'' \<and>
   derived_base ''x.pgen'' = Inr ''x'' \<and>
   derived_base ''x.pvar.zst'' = Inr ''x.pvar.zst''"
  by (simp add: path_defs)

subsection \<open>The names of the output files\<close>

text \<open>
  C2. The three files are meant to be \<^verbatim>\<open><base>.pvar\<close>, \<^verbatim>\<open><base>.psam\<close> and \<^verbatim>\<open><base>.pgen\<close>.
  Writing the one-variant object to the base \<^verbatim>\<open>"x"\<close> creates \<^verbatim>\<open>x.pvar\<close> and \<^verbatim>\<open>x.psam\<close>, but
  the binary writer is opened on the bare base \<^verbatim>\<open>"x"\<close>; no \<^verbatim>\<open>x.pgen\<close> is written.
\<close>

theorem write_opens_pgen_on_bare_base:
  "(case PGENWriter_write ok_env (PGENWriter_init obj_unphased ''x'') False empty_world of
      (r, s, w) \<Rightarrow>
        r = None \<and>
        file_extension s = Some ''.pgen'' \<and>
        pgenlib_calls w =
          [PgenWriter_new ''x'' 2 1 False,
           append_alleles \<lparr> shape = [2], elems = [0, 1] \<rparr> False,
           PgenWriter_exit] \<and>
        files w ''x.pvar'' \<noteq> None \<and>
        files w ''x.psam'' \<noteq> None \<and>
        files w ''x.pgen'' = None)"
  by (simp add: writer_defs path_defs ok_env_def obj_unphased_def empty_world_def)

subsection \<open>The calls made into \<^verbatim>\<open>pgenlib\<close>\<close>

lemma any_raises_append:
  "any_raises E h (xs @ ys) = (any_raises E h xs \<or> any_raises E (h @ xs) ys)"
  by (induction xs arbitrary: h) auto

lemma any_raises_run_calls: "any_raises E h (run_calls E h cs) = any_raises E h cs"
  by (induction cs arbitrary: h) auto

lemma run_calls_all: "\<not> any_raises E h cs \<Longrightarrow> run_calls E h cs = cs"
  by (induction cs arbitrary: h) auto

lemma run_calls_prefix: "\<exists>n\<le>length cs. run_calls E h cs = take n cs"
proof (induction cs arbitrary: h)
  case Nil
  then show ?case by simp
next
  case (Cons c cs)
  show ?case
  proof (cases "pgenlib_raises E h c")
    case True
    then show ?thesis by (intro exI [of _ 1]) simp
  next
    case False
    from Cons [of "h @ [c]"] obtain n where "n \<le> length cs"
      "run_calls E (h @ [c]) cs = take n cs" by blast
    with False show ?thesis by (intro exI [of _ "Suc n"]) simp
  qed
qed

text \<open>The loop hands over the rows in order until the library raises.\<close>

lemma append_loop_session:
  "append_loop E flat ph js w =
     (if any_raises E (pgenlib_calls w)
           (map (\<lambda>i. append_alleles (astype_int32 (getitem flat i)) ph) js)
      then Some PgenlibError else None,
      w\<lparr> pgenlib_calls := pgenlib_calls w @
          run_calls E (pgenlib_calls w)
            (map (\<lambda>i. append_alleles (astype_int32 (getitem flat i)) ph) js) \<rparr>)"
  by (induction js arbitrary: w) (simp_all add: pg_def)

lemma flatten_genotypes_Inr:
  "flatten_genotypes gt = Inr (nv, ns, flat) \<Longrightarrow>
   (ndim gt \<noteq> 3 \<and> shape gt = [nv, ns] \<and> flat = gt) \<or>
   (ndim gt = 3 \<and> (\<exists>na. shape gt = [nv, ns, na] \<and> flat = gt\<lparr> shape := [nv, ns * na] \<rparr>))"
  by (auto simp: flatten_genotypes_def reshape_def ndim_def split: if_splits list.splits)

lemma getitem_rows:
  "map (getitem a) [0..<n] =
     map (\<lambda>r. \<lparr> shape = tl (shape a), elems = r \<rparr>)
       (chunks n (prod_list (tl (shape a))) (elems a))"
proof -
  have "map (getitem a) [0..<n] =
      map (\<lambda>r. \<lparr> shape = tl (shape a), elems = r \<rparr>)
        (map (\<lambda>i. take (prod_list (tl (shape a))) (drop (i * prod_list (tl (shape a))) (elems a)))
           [0..<n])"
    by (simp add: getitem_def Let_def comp_def)
  then show ?thesis by (simp only: chunks_map)
qed

lemma flatten_genotypes_rows:
  assumes "flatten_genotypes gt = Inr (nv, ns, flat)"
  shows "map (getitem flat) [0..<nv] = matrix_rows gt" and "hd (shape gt) = nv"
    and "shape gt ! 1 = ns"
  using flatten_genotypes_Inr [OF assms]
  by (auto simp: getitem_rows matrix_rows_def)

lemma length_matrix_rows: "length (matrix_rows a) = hd (shape a)"
  by (simp add: matrix_rows_def chunks_length)

text \<open>
  \<^verbatim>\<open>write_pgen\<close> on a matrix it can unpack is a session with the library and nothing more:
  it constructs the writer, hands over the rows of the matrix, each as a 1-dimensional
  32-bit array, and closes; its only errors are the library's.
\<close>

lemma write_pgen_session:
  assumes fl: "flatten_genotypes (calldata_gt (snpobj self)) = Inr (nv, ns, flat)"
  shows "write_pgen E self w =
     pgen_session E
       (PgenWriter_new (path_str (filename self)) ns nv (ndim (calldata_gt (snpobj self)) = 3))
       (map (\<lambda>row. append_alleles (astype_int32 row) (ndim (calldata_gt (snpobj self)) = 3))
          (matrix_rows (calldata_gt (snpobj self)))) w"
proof -
  let ?ph = "ndim (calldata_gt (snpobj self)) = 3"
  let ?new = "PgenWriter_new (path_str (filename self)) ns nv ?ph"
  have cs: "map (\<lambda>i. append_alleles (astype_int32 (getitem flat i)) ?ph) [0..<nv] =
      map (\<lambda>row. append_alleles (astype_int32 row) ?ph) (matrix_rows (calldata_gt (snpobj self)))"
    unfolding flatten_genotypes_rows(1) [OF fl, symmetric] by (simp add: comp_def)
  show ?thesis
    unfolding write_pgen_def fl pgen_session_def append_loop_session Let_def
      sum.case prod.case cs
    by (simp add: pg_def encode_utf8_def any_raises_append any_raises_run_calls)
qed

lemma flatten_genotypes_succeeds:
  assumes "wf_ndarray gt" and "ndim gt = 2 \<or> ndim gt = 3"
  shows "\<exists>flat. flatten_genotypes gt = Inr (hd (shape gt), shape gt ! 1, flat)"
proof -
  from assms(2) consider nv ns where "shape gt = [nv, ns]"
    | nv ns na where "shape gt = [nv, ns, na]"
    by (cases "shape gt" rule: list.exhaust)
       (auto simp: ndim_def length_Suc_conv numeral_2_eq_2 numeral_3_eq_3)
  then show ?thesis
  proof cases
    case 1
    then show ?thesis by (simp add: flatten_genotypes_def ndim_def)
  next
    case 2
    with assms(1) show ?thesis
      by (simp add: flatten_genotypes_def ndim_def reshape_def wf_ndarray_def)
  qed
qed

lemma pgen_session_ok:
  "\<not> any_raises E (pgenlib_calls w) (new # appends @ [PgenWriter_exit]) \<Longrightarrow>
   pgen_session E new appends w =
     (None, w\<lparr> pgenlib_calls := pgenlib_calls w @ new # appends @ [PgenWriter_exit] \<rparr>)"
  by (simp add: pgen_session_def any_raises_append any_raises_run_calls run_calls_all)

lemma pgen_session_None:
  assumes "pgen_session E new appends w = (None, w')"
  shows "pgenlib_calls w' = pgenlib_calls w @ new # appends @ [PgenWriter_exit]"
proof -
  from assms have nr: "\<not> pgenlib_raises E (pgenlib_calls w) new"
    and na: "\<not> any_raises E (pgenlib_calls w @ [new]) appends"
    by (auto simp: pgen_session_def Let_def any_raises_append any_raises_run_calls
             split: if_splits)
  with assms show ?thesis
    by (auto simp: pgen_session_def Let_def run_calls_all split: if_splits)
qed

text \<open>
  With a well-formed array of two or three axes and a library that never raises,
  \<^verbatim>\<open>write_pgen\<close> returns normally.
\<close>

lemma never_raises: "(\<And>h c. \<not> pgenlib_raises E h c) \<Longrightarrow> \<not> any_raises E h cs"
  by (induction cs arbitrary: h) simp_all

lemma write_pgen_succeeds:
  assumes lib: "\<And>h c. \<not> pgenlib_raises E h c"
    and wf: "wf_ndarray (calldata_gt (snpobj self))"
    and nd: "ndim (calldata_gt (snpobj self)) = 2 \<or> ndim (calldata_gt (snpobj self)) = 3"
  shows "fst (write_pgen E self w) = None"
proof -
  from flatten_genotypes_succeeds [OF wf nd] obtain flat where
    "flatten_genotypes (calldata_gt (snpobj self)) =
       Inr (hd (shape (calldata_gt (snpobj self))), shape (calldata_gt (snpobj self)) ! 1, flat)"
    by blast
  from write_pgen_session [OF this] never_raises [OF lib] lib show ?thesis
    by (simp add: pgen_session_ok)
qed

lemma upt_0_2: "[0..<2] = [0, 1]"
  by (simp add: numeral_2_eq_2)

text \<open>
  C3. When \<^verbatim>\<open>write_pgen\<close> returns normally, the calls it made are: the constructor, with
  \<^verbatim>\<open>variant_ct\<close> the number of rows of the matrix; then one \<^verbatim>\<open>append_alleles\<close> per row of
  the matrix, in row order, each row cast to 32-bit integers; then the close. The matrix
  has as many rows as were declared.
\<close>

theorem write_pgen_appends_every_row_in_order:
  assumes run: "write_pgen E self w = (None, w')"
  shows "pgenlib_calls w' =
           pgenlib_calls w @
           PgenWriter_new (path_str (filename self))
             (shape (calldata_gt (snpobj self)) ! 1) (hd (shape (calldata_gt (snpobj self))))
             (ndim (calldata_gt (snpobj self)) = 3) #
           map (\<lambda>row. append_alleles (astype_int32 row) (ndim (calldata_gt (snpobj self)) = 3))
             (matrix_rows (calldata_gt (snpobj self))) @
           [PgenWriter_exit] \<and>
         length (matrix_rows (calldata_gt (snpobj self))) = hd (shape (calldata_gt (snpobj self)))"
proof -
  let ?gt = "calldata_gt (snpobj self)"
  from run obtain nv ns flat where fl: "flatten_genotypes ?gt = Inr (nv, ns, flat)"
    by (cases "flatten_genotypes ?gt") (auto simp: write_pgen_def)
  note rows = flatten_genotypes_rows [OF fl]
  from run have "pgen_session E (PgenWriter_new (path_str (filename self)) ns nv (ndim ?gt = 3))
       (map (\<lambda>row. append_alleles (astype_int32 row) (ndim ?gt = 3)) (matrix_rows ?gt)) w =
     (None, w')"
    unfolding write_pgen_session [OF fl] .
  from pgen_session_None [OF this] rows show ?thesis
    by (simp add: length_matrix_rows)
qed

lemma run_phased:
  "write_pgen ok_env (PGENWriter_init obj_phased ''x'') empty_world =
     (None, \<lparr> files = Map.empty,
               pgenlib_calls =
                 [PgenWriter_new ''x'' 2 2 True,
                  append_alleles \<lparr> shape = [4], elems = [0, 0, 1, 1] \<rparr> True,
                  append_alleles \<lparr> shape = [4], elems = [0, 1, 1, 0] \<rparr> True,
                  PgenWriter_exit] \<rparr>)"
  by (simp add: writer_defs reshape_def path_defs ok_env_def obj_phased_def empty_world_def
        upt_0_2)

theorem write_pgen_appends_every_row_in_order_witness:
  "write_pgen ok_env (PGENWriter_init obj_phased ''x'') empty_world =
     (None, \<lparr> files = Map.empty,
               pgenlib_calls =
                 [PgenWriter_new ''x'' 2 2 True,
                  append_alleles \<lparr> shape = [4], elems = [0, 0, 1, 1] \<rparr> True,
                  append_alleles \<lparr> shape = [4], elems = [0, 1, 1, 0] \<rparr> True,
                  PgenWriter_exit] \<rparr>) \<and>
   matrix_rows (calldata_gt obj_phased) =
     [\<lparr> shape = [4], elems = [0, 0, 1, 1] \<rparr>, \<lparr> shape = [4], elems = [0, 1, 1, 0] \<rparr>] \<and>
   length (matrix_rows (calldata_gt obj_phased)) = hd (shape (calldata_gt obj_phased))"
proof -
  have rows: "matrix_rows (calldata_gt obj_phased) =
     [\<lparr> shape = [4], elems = [0, 0, 1, 1] \<rparr>, \<lparr> shape = [4], elems = [0, 1, 1, 0] \<rparr>]"
    by (simp add: matrix_rows_def obj_phased_def numeral_2_eq_2)
  from write_pgen_appends_every_row_in_order [OF run_phased] run_phased rows show ?thesis
    by (simp add: PGENWriter_init_def)
qed

lemma matrix_rows_nth:
  "matrix_rows a =
     map (\<lambda>i. \<lparr> shape = [prod_list (tl (shape a))],
                 elems = take (prod_list (tl (shape a)))
                           (drop (i * prod_list (tl (shape a))) (elems a)) \<rparr>)
       [0..<hd (shape a)]"
  unfolding matrix_rows_def chunks_map [symmetric] by (simp add: comp_def)

text \<open>
  C4. The phase flag depends on the number of axes of the call array and on nothing else.
  For a 3-dimensional array \<^verbatim>\<open>write_pgen\<close> is the session that constructs the writer with
  \<^verbatim>\<open>hardcall_phase_present=True\<close> and hands it, with \<^verbatim>\<open>all_phased=True\<close>, one 1-dimensional
  array of \<open>num_samples * num_alleles\<close> values per variant: the variant's calls flattened.
  For a 2-dimensional array it is the session that constructs the writer with the flag
  \<^verbatim>\<open>False\<close> and hands it, with \<^verbatim>\<open>all_phased=False\<close>, the rows of \<open>num_samples\<close> values as
  they are. This holds for every environment, path and world, and whatever else the
  object holds.
\<close>

theorem phased_flag_from_ndim:
  "(shape (calldata_gt (snpobj self)) = [nv, ns, na] \<and> wf_ndarray (calldata_gt (snpobj self)) \<longrightarrow>
      write_pgen E self w =
        pgen_session E (PgenWriter_new (path_str (filename self)) ns nv True)
          (map (\<lambda>i. append_alleles
                      \<lparr> shape = [ns * na],
                        elems = map int32 (take (ns * na)
                                  (drop (i * (ns * na)) (elems (calldata_gt (snpobj self))))) \<rparr>
                      True)
               [0..<nv])
          w) \<and>
   (shape (calldata_gt (snpobj self)) = [nv, ns] \<longrightarrow>
      write_pgen E self w =
        pgen_session E (PgenWriter_new (path_str (filename self)) ns nv False)
          (map (\<lambda>i. append_alleles
                      \<lparr> shape = [ns],
                        elems = map int32 (take ns
                                  (drop (i * ns) (elems (calldata_gt (snpobj self))))) \<rparr>
                      False)
               [0..<nv])
          w)"
proof (intro conjI impI)
  let ?gt = "calldata_gt (snpobj self)"
  assume a: "shape ?gt = [nv, ns, na] \<and> wf_ndarray ?gt"
  then have fl: "flatten_genotypes ?gt = Inr (nv, ns, ?gt\<lparr> shape := [nv, ns * na] \<rparr>)"
    by (simp add: flatten_genotypes_def ndim_def reshape_def wf_ndarray_def)
  from a have nd: "ndim ?gt = 3" by (simp add: ndim_def)
  show "write_pgen E self w =
        pgen_session E (PgenWriter_new (path_str (filename self)) ns nv True)
          (map (\<lambda>i. append_alleles
                      \<lparr> shape = [ns * na],
                        elems = map int32 (take (ns * na) (drop (i * (ns * na)) (elems ?gt))) \<rparr>
                      True)
               [0..<nv])
          w"
    unfolding write_pgen_session [OF fl] matrix_rows_nth nd using a
    by (simp add: astype_int32_def comp_def)
next
  let ?gt = "calldata_gt (snpobj self)"
  assume a: "shape ?gt = [nv, ns]"
  then have fl: "flatten_genotypes ?gt = Inr (nv, ns, ?gt)"
    by (simp add: flatten_genotypes_def ndim_def)
  from a have nd: "ndim ?gt = 2" by (simp add: ndim_def)
  show "write_pgen E self w =
        pgen_session E (PgenWriter_new (path_str (filename self)) ns nv False)
          (map (\<lambda>i. append_alleles
                      \<lparr> shape = [ns],
                        elems = map int32 (take ns (drop (i * ns) (elems ?gt))) \<rparr>
                      False)
               [0..<nv])
          w"
    unfolding write_pgen_session [OF fl] matrix_rows_nth nd using a
    by (simp add: astype_int32_def comp_def)
qed

lemmas example_defs =
  ok_env_def obj_phased_def obj_unphased_def empty_world_def PGENWriter_init_def

lemmas session_defs = pgen_session_def Let_def

theorem phased_flag_from_ndim_witness:
  "shape (calldata_gt obj_phased) = [2, 2, 2] \<and>
   wf_ndarray (calldata_gt obj_phased) \<and>
   write_pgen ok_env (PGENWriter_init obj_phased ''x'') empty_world =
     (None, \<lparr> files = Map.empty,
               pgenlib_calls =
                 [PgenWriter_new ''x'' 2 2 True,
                  append_alleles \<lparr> shape = [4], elems = [0, 0, 1, 1] \<rparr> True,
                  append_alleles \<lparr> shape = [4], elems = [0, 1, 1, 0] \<rparr> True,
                  PgenWriter_exit] \<rparr>) \<and>
   shape (calldata_gt obj_unphased) = [1, 2] \<and>
   write_pgen ok_env (PGENWriter_init obj_unphased ''x'') empty_world =
     (None, \<lparr> files = Map.empty,
               pgenlib_calls =
                 [PgenWriter_new ''x'' 2 1 False,
                  append_alleles \<lparr> shape = [2], elems = [0, 1] \<rparr> False,
                  PgenWriter_exit] \<rparr>)"
proof -
  let ?P = "PGENWriter_init obj_phased ''x''" and ?U = "PGENWriter_init obj_unphased ''x''"
  have p: "shape (calldata_gt (snpobj ?P)) = [2, 2, 2] \<and> wf_ndarray (calldata_gt (snpobj ?P))"
    by (simp add: example_defs wf_ndarray_def)
  have u: "shape (calldata_gt (snpobj ?U)) = [1, 2]"
    by (simp add: example_defs)
  note t = phased_flag_from_ndim [of ?P 2 2 2 ok_env empty_world, THEN conjunct1, rule_format, OF p]
    phased_flag_from_ndim [of ?U 1 2 0 ok_env empty_world, THEN conjunct2, rule_format, OF u]
  have n: "path_str (filename ?P) = ''x''" "path_str (filename ?U) = ''x''"
    by (simp_all add: path_defs example_defs)
  show ?thesis
    unfolding t n
    by (simp add: session_defs example_defs wf_ndarray_def upt_0_2 int32_def)
qed

subsection \<open>Row lengths and the declared sample count\<close>

lemmas strict_defs = strict_env_def ok_env_def


subsection \<open>Values outside the hardcall alphabet\<close>

lemma int32_in_range: "- (2 ^ 31) \<le> x \<Longrightarrow> x < 2 ^ 31 \<Longrightarrow> int32 x = x"
  unfolding int32_def by (simp add: sint_sbintrunc' signed_take_bit_int_eq_self)

lemma int32_wraps: "int32 (x + 2 ^ 32 * k) = int32 x"
proof -
  have "(x + 2 ^ 32 * k) mod 2 ^ 32 = x mod 2 ^ 32"
    by (rule mod_mult_self2)
  then have "(word_of_int (x + 2 ^ 32 * k) :: 32 word) = word_of_int x"
    unfolding word_of_int_eq_iff take_bit_eq_mod by simp
  then show ?thesis by (simp add: int32_def)
qed

lemma int32_arith: "int32 x = (x + 2 ^ 31) mod 2 ^ 32 - 2 ^ 31"
  unfolding int32_def by (simp add: int_word_sint)

text \<open>
  C8, as stated: a call value outside the hardcall alphabet makes the append fail, and no
  value is truncated before it is encoded. The phased 64-bit matrix
  \<open>[[[0, 2^32 + 1], [0, 1]]]\<close> holds the out-of-alphabet value \<open>2^32 + 1\<close>. Even with a
  binary writer that accepts the codes 0 and 1 only (it rejects the same matrix with 5 in
  that place), \<^verbatim>\<open>write_pgen\<close> returns normally: the cast to 32 bits turned the row into
  \<open>[0, 1, 0, 1]\<close> before the writer saw it.
\<close>

theorem out_of_alphabet_value_is_truncated:
  "elems (calldata_gt obj_wide) = [0, 4294967297, 0, 1] \<and>
   write_pgen strict_env (PGENWriter_init obj_wide ''x'') empty_world =
     (None,
      \<lparr> files = Map.empty,
        pgenlib_calls =
          [PgenWriter_new ''x'' 2 1 True,
           append_alleles \<lparr> shape = [4], elems = [0, 1, 0, 1] \<rparr> True,
           PgenWriter_exit] \<rparr>) \<and>
   write_pgen strict_env (PGENWriter_init obj_five ''x'') empty_world =
     (Some PgenlibError,
      \<lparr> files = Map.empty,
        pgenlib_calls =
          [PgenWriter_new ''x'' 2 1 True,
           append_alleles \<lparr> shape = [4], elems = [0, 5, 0, 1] \<rparr> True,
           PgenWriter_exit] \<rparr>)"
  by (simp add: writer_defs reshape_def path_defs strict_defs obj_wide_def obj_five_def
        obj_unphased_def empty_world_def)

text \<open>
  C8, amended. For a matrix of two or three axes \<^verbatim>\<open>write_pgen\<close> is a session with the
  binary writer and nothing else: it checks no call value and raises no error of its
  own. It constructs the writer, hands over each row of the matrix in order with its
  values cast to 32-bit integers (\<open>x\<close> becomes \<open>(x + 2^31) mod 2^32 - 2^31\<close>: unchanged
  within the 32-bit range, wrapped otherwise), stops at the first row the writer rejects,
  and closes. It ends in an error exactly when a call into the writer raised, and that
  error is the writer's.
\<close>

theorem write_pgen_is_a_pgenlib_session:
  assumes wf: "wf_ndarray (calldata_gt (snpobj self))"
    and nd: "ndim (calldata_gt (snpobj self)) = 2 \<or> ndim (calldata_gt (snpobj self)) = 3"
  shows "write_pgen E self w =
     pgen_session E
       (PgenWriter_new (path_str (filename self))
          (shape (calldata_gt (snpobj self)) ! 1) (hd (shape (calldata_gt (snpobj self))))
          (ndim (calldata_gt (snpobj self)) = 3))
       (map (\<lambda>row. append_alleles (row\<lparr> elems := map int32 (elems row) \<rparr>)
                    (ndim (calldata_gt (snpobj self)) = 3))
          (matrix_rows (calldata_gt (snpobj self)))) w \<and>
     (fst (write_pgen E self w) = None \<or> fst (write_pgen E self w) = Some PgenlibError) \<and>
     int32 x = (x + 2 ^ 31) mod 2 ^ 32 - 2 ^ 31"
proof -
  from flatten_genotypes_succeeds [OF wf nd] obtain flat where
    "flatten_genotypes (calldata_gt (snpobj self)) =
       Inr (hd (shape (calldata_gt (snpobj self))), shape (calldata_gt (snpobj self)) ! 1, flat)"
    by blast
  note s = write_pgen_session [OF this, of E w]
  have "fst (write_pgen E self w) = None \<or> fst (write_pgen E self w) = Some PgenlibError"
    unfolding s by (simp add: pgen_session_def Let_def)
  with s show ?thesis by (simp add: int32_arith astype_int32_def [abs_def])
qed

theorem write_pgen_is_a_pgenlib_session_witness:
  "wf_ndarray (calldata_gt obj_five) \<and>
   ndim (calldata_gt obj_five) = 3 \<and>
   write_pgen strict_env (PGENWriter_init obj_five ''x'') empty_world =
     (Some PgenlibError,
      \<lparr> files = Map.empty,
        pgenlib_calls =
          [PgenWriter_new ''x'' 2 1 True,
           append_alleles \<lparr> shape = [4], elems = [0, 5, 0, 1] \<rparr> True,
           PgenWriter_exit] \<rparr>) \<and>
   int32 4294967297 = 1"
proof -
  let ?S = "PGENWriter_init obj_five ''x''"
  have wf: "wf_ndarray (calldata_gt (snpobj ?S))"
    by (simp add: wf_ndarray_def PGENWriter_init_def obj_five_def)
  have nd: "ndim (calldata_gt (snpobj ?S)) = 2 \<or> ndim (calldata_gt (snpobj ?S)) = 3"
    by (simp add: ndim_def PGENWriter_init_def obj_five_def)
  note t = write_pgen_is_a_pgenlib_session [OF wf nd, of strict_env empty_world 4294967297]
  have n: "path_str (filename ?S) = ''x''"
    by (simp add: path_defs PGENWriter_init_def)
  from t wf nd show ?thesis
    unfolding n
    by (simp add: session_defs strict_defs PGENWriter_init_def obj_five_def obj_unphased_def
          empty_world_def wf_ndarray_def ndim_def matrix_rows_def int32_def)
qed

subsection \<open>The sidecar text\<close>

lemma join_safe:
  "list_all tsv_safe r \<Longrightarrow> CHR 0x0A \<notin> set (join [CHR 0x09] r)"
  using set_join [of "[CHR 0x09]" r] by (auto simp: list_all_iff tsv_safe_def)

lemma tsv_rows_lines:
  assumes "list_all (\<lambda>r. r \<noteq> [] \<and> list_all tsv_safe r) rows"
  shows "tsv_rows (concat (map csv_line rows)) = rows"
proof -
  let ?ls = "map (join [CHR 0x09]) rows"
  have cc: "concat (map csv_line rows) = concat (map (\<lambda>l. l @ [CHR 0x0A]) ?ls)"
    by (simp add: csv_line_def [abs_def] comp_def)
  have "list_all (\<lambda>l. CHR 0x0A \<notin> set l) ?ls"
  proof -
    have "CHR 0x0A \<notin> set (join [CHR 0x09] r)" if "r \<in> set rows" for r
      using assms that by (intro join_safe) (auto simp: list_all_iff)
    then show ?thesis by (auto simp: list_all_iff)
  qed
  then have "split_sep (CHR 0x0A) (concat (map csv_line rows)) = ?ls @ [[]]"
    unfolding cc by (rule split_lines)
  moreover have "map (split_sep (CHR 0x09)) ?ls = rows"
    using assms
    by (induction rows) (auto simp: split_sep_join list_all_iff tsv_safe_def)
  ultimately show ?thesis by (simp add: tsv_rows_def)
qed

lemma write_csv_lines:
  "df \<noteq> [] \<Longrightarrow>
   write_csv E df =
     concat (map csv_line
       (map (\<lambda>(n, col). csv_str E n) df #
        map (\<lambda>i. map (\<lambda>(n, col). csv_cell E (col ! i)) df) [0..<height df]))"
  by (simp add: write_csv_def comp_def)

lemma tsv_rows_write_csv:
  assumes ne: "df \<noteq> []"
    and hdr: "list_all (\<lambda>(n, col). tsv_safe (csv_str E n)) df"
    and cells: "list_all (\<lambda>(n, col). height df \<le> length col \<and>
                   list_all (\<lambda>c. tsv_safe (csv_cell E c)) col) df"
  shows "tsv_rows (write_csv E df) =
     map (\<lambda>(n, col). csv_str E n) df #
     map (\<lambda>i. map (\<lambda>(n, col). csv_cell E (col ! i)) df) [0..<height df]"
proof -
  have "list_all tsv_safe (map (\<lambda>(n, col). csv_str E n) df)"
    using hdr by (auto simp: list_all_iff)
  moreover have "list_all tsv_safe (map (\<lambda>(n, col). csv_cell E (col ! i)) df)"
    if "i < height df" for i
    using cells that by (fastforce simp: list_all_iff)
  ultimately have "list_all (\<lambda>r. r \<noteq> [] \<and> list_all tsv_safe r)
       (map (\<lambda>(n, col). csv_str E n) df #
        map (\<lambda>i. map (\<lambda>(n, col). csv_cell E (col ! i)) df) [0..<height df])"
    using ne by (auto simp: list_all_iff)
  then show ?thesis
    unfolding write_csv_lines [OF ne] by (rule tsv_rows_lines)
qed

lemma fold_max_ge: "a \<le> fold max xs (a::nat)"
  by (induction xs arbitrary: a) (auto intro: order_trans [OF max.cobounded2])

lemma fold_max_mem: "x \<in> set xs \<Longrightarrow> x \<le> fold max xs (a::nat)"
proof (induction xs arbitrary: a)
  case Nil then show ?case by simp
next
  case (Cons y ys)
  show ?case
  proof (cases "x = y")
    case True
    have "max y a \<le> fold max ys (max y a)" by (rule fold_max_ge)
    with True show ?thesis by simp
  next
    case False
    with Cons show ?thesis by simp
  qed
qed

text \<open>A dictionary of arrays only: the frame has exactly these columns, all of one length.\<close>

lemma DataFrame_arrays:
  assumes "DataFrame E (map (\<lambda>(n, xs). (n, Array xs)) cols) = Inr df"
  shows "df = cols \<and> list_all (\<lambda>(n, xs). length xs = height df) cols"
proof -
  let ?d = "map (\<lambda>(n, xs). (n, Array xs)) cols"
  have lens: "map (\<lambda>(n, v). case v of Array xs \<Rightarrow> length xs | Scalar c \<Rightarrow> 0) ?d =
              map (\<lambda>(n, xs). length xs) cols"
    by (simp add: comp_def case_prod_unfold)
  have al: "array_len ?d = fold max (map (\<lambda>(n, xs). length xs) cols) 0"
    unfolding array_len_def lens ..
  have le: "length xs \<le> array_len ?d" if "(n, xs) \<in> set cols" for n xs
    unfolding al using that by (intro fold_max_mem) force
  show ?thesis
  proof (cases "array_len ?d > 0")
    case True
    with assms have eq: "list_all (\<lambda>(n, xs). length xs = array_len ?d) cols" and df: "df = cols"
      by (auto simp: DataFrame_def list_all_iff case_prod_unfold comp_def split: if_splits
               intro: map_idI)
    then show ?thesis by (cases cols) (auto simp: height_def list_all_iff)
  next
    case False
    with le have z: "xs = []" if "(n, xs) \<in> set cols" for n xs using that by fastforce
    from False assms have "df = map (\<lambda>(n, xs). (n, [])) cols"
      by (auto simp: DataFrame_def list_all_iff case_prod_unfold comp_def split: if_splits)
    also have "\<dots> = cols" using z by (intro map_idI) auto
    finally have df: "df = cols" .
    with z show ?thesis by (cases cols) (auto simp: height_def list_all_iff)
  qed
qed

lemma column0_Inr:
  assumes c: "column0 a = Inr (Flat col)" and wf: "wf_ndarray a"
  shows "length col = hd (shape a)"
    and "i < hd (shape a) \<Longrightarrow>
         col ! i = hd (elems (getitem a i)) \<and> col ! i \<in> set (elems a)"
proof -
  from c obtain n k where sh: "shape a = [n, k]" and k: "0 < k"
    and col: "col = map (\<lambda>i. elems a ! (i * k)) [0..<n]"
    by (auto simp: column0_def split: list.splits if_splits)
  from col sh show "length col = hd (shape a)" by simp
  assume "i < hd (shape a)"
  with sh have i: "i < n" by simp
  then have "Suc i \<le> n" by simp
  then have "Suc i * k \<le> n * k" by (rule mult_le_mono1)
  with i k wf sh have lt: "i * k < length (elems a)" by (simp add: wf_ndarray_def)
  from i col have "col ! i = elems a ! (i * k)" by simp
  moreover from lt k sh have "hd (elems (getitem a i)) = elems a ! (i * k)"
    by (simp add: getitem_def hd_drop_conv_nth)
  ultimately show "col ! i = hd (elems (getitem a i)) \<and> col ! i \<in> set (elems a)"
    using lt by simp
qed

lemma pvar_frame_Inr:
  assumes "pvar_frame E obj = Inr df"
  shows "\<exists>alt. column0 (variants_alt obj) = Inr (Flat alt) \<and>
     df = [(''#CHROM'', variants_chrom obj), (''POS'', variants_pos obj),
           (''ID'', variants_id obj), (''REF'', variants_ref obj),
           (''ALT'', alt), (''FILTER'', variants_filter_pass obj)] \<and>
     length (variants_pos obj) = length (variants_chrom obj) \<and>
     length (variants_id obj) = length (variants_chrom obj) \<and>
     length (variants_ref obj) = length (variants_chrom obj) \<and>
     length alt = length (variants_chrom obj) \<and>
     length (variants_filter_pass obj) = length (variants_chrom obj)"
proof -
  from assms obtain alt where alt: "column0 (variants_alt obj) = Inr (Flat alt)"
    by (cases "column0 (variants_alt obj)")
       (auto simp: pvar_frame_def split: column.splits sum.splits)
  define cols where "cols = [(''#CHROM'', variants_chrom obj), (''POS'', variants_pos obj),
           (''ID'', variants_id obj), (''REF'', variants_ref obj),
           (''ALT'', alt), (''FILTER'', variants_filter_pass obj)]"
  have m: "map (\<lambda>(n, xs). (n, Array xs)) cols = pvar_columns obj alt"
    unfolding cols_def pvar_columns_def by simp
  from assms have "DataFrame E (map (\<lambda>(n, xs). (n, Array xs)) cols) = Inr df"
    unfolding m pvar_frame_def alt by simp
  from DataFrame_arrays [OF this]
  have df: "df = cols" and la: "list_all (\<lambda>(n, xs). length xs = height df) cols"
    by blast+
  have h: "height df = length (variants_chrom obj)"
    unfolding df cols_def height_def by simp
  from la have "list_all (\<lambda>(n, xs). length xs = length (variants_chrom obj)) cols"
    unfolding h .
  then have lens: "length (variants_pos obj) = length (variants_chrom obj)"
     "length (variants_id obj) = length (variants_chrom obj)"
     "length (variants_ref obj) = length (variants_chrom obj)"
     "length alt = length (variants_chrom obj)"
     "length (variants_filter_pass obj) = length (variants_chrom obj)"
    unfolding cols_def by simp_all
  from alt df lens show ?thesis unfolding cols_def by blast
qed

lemma header_safe: "tsv_safe (csv_str E ''#CHROM'')" "tsv_safe (csv_str E ''POS'')"
  "tsv_safe (csv_str E ''ID'')" "tsv_safe (csv_str E ''REF'')" "tsv_safe (csv_str E ''ALT'')"
  "tsv_safe (csv_str E ''FILTER'')" "tsv_safe (csv_str E ''IID'')" "tsv_safe (csv_str E ''SEX'')"
  by (simp_all add: csv_str_def plain_def tsv_safe_def)

lemma header_plain: "csv_str E ''#CHROM'' = ''#CHROM''" "csv_str E ''POS'' = ''POS''"
  "csv_str E ''ID'' = ''ID''" "csv_str E ''REF'' = ''REF''" "csv_str E ''ALT'' = ''ALT''"
  "csv_str E ''FILTER'' = ''FILTER''" "csv_str E ''IID'' = ''IID''" "csv_str E ''SEX'' = ''SEX''"
  "csv_str E ''NA'' = ''NA''"
  by (simp_all add: csv_str_def plain_def)

text \<open>
  C5. When \<^verbatim>\<open>write_pvar\<close> (uncompressed) returns normally, the file \<^verbatim>\<open><base>.pvar\<close> holds
  tab-separated text which, split into lines and fields, is the header
  \<^verbatim>\<open>#CHROM POS ID REF ALT FILTER\<close> followed by one record per variant, in variant order;
  the fifth field of record \<open>i\<close> is the first allele of row \<open>i\<close> of the ALT array, whatever
  further alleles that row holds. Splitting at tabs and line feeds reads the fields back
  provided no written field holds one of them.
\<close>

theorem write_pvar_text:
  assumes run: "write_pvar E self False w = (None, w')"
    and wf: "wf_ndarray (variants_alt (snpobj self))"
    and safe: "list_all (\<lambda>c. tsv_safe (csv_cell E c))
       (variants_chrom (snpobj self) @ variants_pos (snpobj self) @ variants_id (snpobj self) @
        variants_ref (snpobj self) @ elems (variants_alt (snpobj self)) @
        variants_filter_pass (snpobj self))"
  shows "\<exists>text.
     files w' (path_str (filename self) @ ''.pvar'') = Some (TextFile text) \<and>
     tsv_rows text =
       [''#CHROM'', ''POS'', ''ID'', ''REF'', ''ALT'', ''FILTER''] #
       map (\<lambda>i. [csv_cell E (variants_chrom (snpobj self) ! i),
                  csv_cell E (variants_pos (snpobj self) ! i),
                  csv_cell E (variants_id (snpobj self) ! i),
                  csv_cell E (variants_ref (snpobj self) ! i),
                  csv_cell E (hd (elems (getitem (variants_alt (snpobj self)) i))),
                  csv_cell E (variants_filter_pass (snpobj self) ! i)])
           [0..<hd (shape (variants_alt (snpobj self)))]"
proof -
  let ?obj = "snpobj self"
  let ?n = "hd (shape (variants_alt ?obj))"
  from run obtain df where df: "pvar_frame E ?obj = Inr df"
    by (cases "pvar_frame E ?obj") (simp_all add: write_pvar_def)
  from pvar_frame_Inr [OF df] obtain alt where alt: "column0 (variants_alt ?obj) = Inr (Flat alt)"
    and cols: "df = [(''#CHROM'', variants_chrom ?obj), (''POS'', variants_pos ?obj),
           (''ID'', variants_id ?obj), (''REF'', variants_ref ?obj),
           (''ALT'', alt), (''FILTER'', variants_filter_pass ?obj)]"
    and len: "length (variants_pos ?obj) = length (variants_chrom ?obj)"
      "length (variants_id ?obj) = length (variants_chrom ?obj)"
      "length (variants_ref ?obj) = length (variants_chrom ?obj)"
      "length alt = length (variants_chrom ?obj)"
      "length (variants_filter_pass ?obj) = length (variants_chrom ?obj)"
    by blast
  note c0 = column0_Inr [OF alt wf]
  from c0(1) len have n: "length (variants_chrom ?obj) = ?n" by simp
  have h: "height df = ?n" unfolding cols height_def using n by simp
  have altsafe: "list_all (\<lambda>c. tsv_safe (csv_cell E c)) alt"
  proof -
    have "tsv_safe (csv_cell E (alt ! i))" if "i < length alt" for i
    proof -
      from that c0(1) have "i < ?n" by simp
      from c0(2) [OF this] have "alt ! i \<in> set (elems (variants_alt ?obj))" ..
      with safe show ?thesis by (simp add: list_all_iff)
    qed
    then show ?thesis by (auto simp: list_all_iff in_set_conv_nth)
  qed
  have hdr: "list_all (\<lambda>(n, col). tsv_safe (csv_str E n)) df"
    unfolding cols by (simp add: header_safe)
  have cells: "list_all (\<lambda>(n, col). height df \<le> length col \<and>
                   list_all (\<lambda>c. tsv_safe (csv_cell E c)) col) df"
    unfolding cols using safe altsafe len n by (simp add: height_def)
  have ne: "df \<noteq> []" unfolding cols by simp
  have body: "map (\<lambda>(n, col). csv_cell E (col ! i)) df =
      [csv_cell E (variants_chrom ?obj ! i), csv_cell E (variants_pos ?obj ! i),
       csv_cell E (variants_id ?obj ! i), csv_cell E (variants_ref ?obj ! i),
       csv_cell E (hd (elems (getitem (variants_alt ?obj) i))),
       csv_cell E (variants_filter_pass ?obj ! i)]" if "i < ?n" for i
    unfolding cols using c0(2) [OF that] by simp
  have rows: "tsv_rows (write_csv E df) =
       [''#CHROM'', ''POS'', ''ID'', ''REF'', ''ALT'', ''FILTER''] #
       map (\<lambda>i. [csv_cell E (variants_chrom ?obj ! i),
                  csv_cell E (variants_pos ?obj ! i),
                  csv_cell E (variants_id ?obj ! i),
                  csv_cell E (variants_ref ?obj ! i),
                  csv_cell E (hd (elems (getitem (variants_alt ?obj) i))),
                  csv_cell E (variants_filter_pass ?obj ! i)]) [0..<?n]"
  proof -
    have "map (\<lambda>(n, col). csv_str E n) df =
        [''#CHROM'', ''POS'', ''ID'', ''REF'', ''ALT'', ''FILTER'']"
      unfolding cols by (simp add: header_plain)
    moreover have "map (\<lambda>i. map (\<lambda>(n, col). csv_cell E (col ! i)) df) [0..<?n] =
       map (\<lambda>i. [csv_cell E (variants_chrom ?obj ! i),
                  csv_cell E (variants_pos ?obj ! i),
                  csv_cell E (variants_id ?obj ! i),
                  csv_cell E (variants_ref ?obj ! i),
                  csv_cell E (hd (elems (getitem (variants_alt ?obj) i))),
                  csv_cell E (variants_filter_pass ?obj ! i)]) [0..<?n]"
      by (rule map_cong [OF refl]) (simp add: body)
    ultimately show ?thesis
      unfolding tsv_rows_write_csv [OF ne hdr cells] h by simp
  qed
  from run df have "files w' (path_str (filename self) @ ''.pvar'') = Some (TextFile (write_csv E df))"
    by (auto simp: write_pvar_def open_write_def Let_def split: if_splits)
  with rows show ?thesis by blast
qed

theorem write_pvar_text_witness:
  "fst (write_pvar ok_env (PGENWriter_init obj_phased ''x'') False empty_world) = None \<and>
   wf_ndarray (variants_alt obj_phased) \<and>
   list_all (\<lambda>c. tsv_safe (csv_cell ok_env c))
     (variants_chrom obj_phased @ variants_pos obj_phased @ variants_id obj_phased @
      variants_ref obj_phased @ elems (variants_alt obj_phased) @
      variants_filter_pass obj_phased) \<and>
   (\<exists>text.
      files (snd (write_pvar ok_env (PGENWriter_init obj_phased ''x'') False empty_world))
        ''x.pvar'' = Some (TextFile text) \<and>
      tsv_rows text =
        [[''#CHROM'', ''POS'', ''ID'', ''REF'', ''ALT'', ''FILTER''],
         [''1'', ''100'', ''rs1'', ''A'', ''G'', ''true''],
         [''1'', ''205'', ''rs2'', ''C'', ''T'', ''false'']])"
proof -
  let ?S = "PGENWriter_init obj_phased ''x''"
  have ok: "fst (write_pvar ok_env ?S False empty_world) = None"
    by (simp add: writer_defs path_defs example_defs Let_def)
  then have run: "write_pvar ok_env ?S False empty_world =
      (None, snd (write_pvar ok_env ?S False empty_world))"
    by (metis prod.collapse)
  have wf: "wf_ndarray (variants_alt (snpobj ?S))"
    by (simp add: wf_ndarray_def example_defs)
  have safe: "list_all (\<lambda>c. tsv_safe (csv_cell ok_env c))
     (variants_chrom (snpobj ?S) @ variants_pos (snpobj ?S) @ variants_id (snpobj ?S) @
      variants_ref (snpobj ?S) @ elems (variants_alt (snpobj ?S)) @
      variants_filter_pass (snpobj ?S))"
    by (simp add: example_defs tsv_safe_def csv_str_def plain_def str_int_def str_nat.simps)
  have p: "path_str (filename ?S) = ''x''"
    by (simp add: path_defs example_defs)
  from write_pvar_text [OF run wf safe] ok wf safe show ?thesis
    unfolding p
    by (simp add: example_defs upt_0_2 getitem_def csv_str_def plain_def str_int_def
          str_nat.simps)
qed

lemma psam_frame_nonempty:
  "samples obj \<noteq> [] \<Longrightarrow>
   psam_frame E obj =
     Inr [(''IID'', samples obj),
          (''SEX'', replicate (length (samples obj)) (CStr ''NA''))]"
  by (simp add: psam_frame_def DataFrame_def array_len_def)

lemma map_nth_fun: "map (\<lambda>i. f (xs ! i)) [0..<length xs] = map f xs"
  by (rule nth_equalityI) simp_all

text \<open>
  C6. When \<^verbatim>\<open>write_psam\<close> returns normally for an object with at least one sample, the file
  \<^verbatim>\<open><base>.psam\<close> holds tab-separated text which, split into lines and fields, is the
  header \<^verbatim>\<open>IID SEX\<close> followed by one record per sample, in sample order, whose second field
  is the constant \<^verbatim>\<open>NA\<close>. (Without samples the frame is built from a scalar and a
  zero-length column, which polars versions treat differently; the spec itself takes
  \<open>num_samples > 0\<close>.)
\<close>

theorem write_psam_text:
  assumes run: "write_psam E self w = (None, w')"
    and ne: "samples (snpobj self) \<noteq> []"
    and safe: "list_all (\<lambda>c. tsv_safe (csv_cell E c)) (samples (snpobj self))"
  shows "\<exists>text.
     files w' (path_str (filename self) @ ''.psam'') = Some (TextFile text) \<and>
     tsv_rows text =
       [''IID'', ''SEX''] # map (\<lambda>s. [csv_cell E s, ''NA'']) (samples (snpobj self))"
proof -
  let ?smp = "samples (snpobj self)"
  let ?df = "[(''IID'', ?smp), (''SEX'', replicate (length ?smp) (CStr ''NA''))]"
  note fr = psam_frame_nonempty [OF ne, of E]
  have h: "height ?df = length ?smp" by (simp add: height_def)
  have hdr: "list_all (\<lambda>(n, col). tsv_safe (csv_str E n)) ?df"
    by (simp add: header_safe)
  have na: "tsv_safe (csv_cell E (CStr ''NA''))"
    by (simp add: header_plain tsv_safe_def)
  have cells: "list_all (\<lambda>(n, col). height ?df \<le> length col \<and>
                   list_all (\<lambda>c. tsv_safe (csv_cell E c)) col) ?df"
    using safe na by (simp add: height_def list_all_iff)
  have body: "map (\<lambda>i. map (\<lambda>(n, col). csv_cell E (col ! i)) ?df) [0..<length ?smp] =
      map (\<lambda>s. [csv_cell E s, ''NA'']) ?smp"
  proof -
    have "map (\<lambda>i. map (\<lambda>(n, col). csv_cell E (col ! i)) ?df) [0..<length ?smp] =
        map (\<lambda>i. [csv_cell E (?smp ! i), ''NA'']) [0..<length ?smp]"
      by (rule map_cong [OF refl]) (simp add: header_plain)
    also have "\<dots> = map (\<lambda>s. [csv_cell E s, ''NA'']) ?smp"
      by (rule map_nth_fun)
    finally show ?thesis .
  qed
  have rows: "tsv_rows (write_csv E ?df) =
      [''IID'', ''SEX''] # map (\<lambda>s. [csv_cell E s, ''NA'']) ?smp"
  proof -
    have t: "tsv_rows (write_csv E ?df) =
        map (\<lambda>(n, col). csv_str E n) ?df #
        map (\<lambda>i. map (\<lambda>(n, col). csv_cell E (col ! i)) ?df) [0..<height ?df]"
      by (rule tsv_rows_write_csv [OF _ hdr cells]) simp
    have hm: "map (\<lambda>(n, col). csv_str E n) ?df = [''IID'', ''SEX'']"
      by (simp add: header_plain)
    show ?thesis unfolding t h body hm ..
  qed
  from run fr have "files w' (path_str (filename self) @ ''.psam'') =
      Some (TextFile (write_csv E ?df))"
    by (auto simp: write_psam_def open_write_def split: if_splits)
  with rows show ?thesis by blast
qed

theorem write_psam_text_witness:
  "fst (write_psam ok_env (PGENWriter_init obj_unphased ''x'') empty_world) = None \<and>
   samples obj_unphased \<noteq> [] \<and>
   list_all (\<lambda>c. tsv_safe (csv_cell ok_env c)) (samples obj_unphased) \<and>
   (\<exists>text.
      files (snd (write_psam ok_env (PGENWriter_init obj_unphased ''x'') empty_world))
        ''x.psam'' = Some (TextFile text) \<and>
      tsv_rows text = [[''IID'', ''SEX''], [''s1'', ''NA''], [''s2'', ''NA'']])"
proof -
  let ?S = "PGENWriter_init obj_unphased ''x''"
  have ok: "fst (write_psam ok_env ?S empty_world) = None"
    by (simp add: writer_defs path_defs example_defs)
  then have run: "write_psam ok_env ?S empty_world =
      (None, snd (write_psam ok_env ?S empty_world))"
    by (metis prod.collapse)
  have ne: "samples (snpobj ?S) \<noteq> []"
    by (simp add: example_defs)
  have safe: "list_all (\<lambda>c. tsv_safe (csv_cell ok_env c)) (samples (snpobj ?S))"
    by (simp add: example_defs tsv_safe_def csv_str_def plain_def)
  have p: "path_str (filename ?S) = ''x''"
    by (simp add: path_defs example_defs)
  from write_psam_text [OF run ne safe] ok ne safe show ?thesis
    unfolding p by (simp add: example_defs csv_str_def plain_def)
qed

subsection \<open>Compression of the variant sidecar\<close>

text \<open>
  C7. Either the variant table cannot be built and both modes raise the same error
  without touching a file, or there is one text such that \<^verbatim>\<open>vzs=False\<close> writes it as it is
  to \<^verbatim>\<open><base>.pvar\<close> and \<^verbatim>\<open>vzs=True\<close> writes the zstd compression of its UTF-8 encoding to
  \<^verbatim>\<open><base>.pvar.zst\<close> (each provided its file can be opened). Nothing else depends on
  \<^verbatim>\<open>vzs\<close>.
\<close>

theorem write_pvar_vzs_compresses_same_text:
  "(\<exists>e. pvar_frame E (snpobj self) = Inl e \<and>
        write_pvar E self False w = (Some e, w) \<and>
        write_pvar E self True w = (Some e, w)) \<or>
   (\<exists>text.
      write_pvar E self False w =
        (if can_open E (path_str (filename self) @ ''.pvar'')
         then (None, w\<lparr> files := (files w)(path_str (filename self) @ ''.pvar'' \<mapsto>
                                     TextFile text) \<rparr>)
         else (Some OSError, w)) \<and>
      write_pvar E self True w =
        (if can_open E (path_str (filename self) @ ''.pvar.zst'')
         then (None, w\<lparr> files := (files w)(path_str (filename self) @ ''.pvar.zst'' \<mapsto>
                                     BinaryFile (zstd_compress E (encode_utf8 text))) \<rparr>)
         else (Some OSError, w)))"
proof (cases "pvar_frame E (snpobj self)")
  case (Inl e)
  then show ?thesis by (simp add: write_pvar_def)
next
  case (Inr df)
  then show ?thesis
    by (intro disjI2 exI [of _ "write_csv E df"]) (simp add: write_pvar_def open_write_def)
qed

subsection \<open>Order of the three writers\<close>

lemma suffix_empty_name: "name p = [] \<Longrightarrow> suffix p = []"
  by (simp add: suffix_def)

lemma strip_extension_total: "\<exists>f. strip_extension p = Inr f"
proof (cases "suffix p \<in> set file_extensions")
  case True
  then have "suffix p \<noteq> []" by (auto simp: file_extensions_def)
  with suffix_empty_name [of p] have "name p \<noteq> []" by blast
  with True show ?thesis by (simp add: strip_extension_def with_suffix_def)
next
  case False
  then show ?thesis by (simp add: strip_extension_def)
qed

lemma write_pvar_effect:
  assumes "write_pvar E self vzs w = (r, w')"
  shows "pgenlib_calls w' = pgenlib_calls w"
    and "files w' =
      (files w)(path_str (filename self) @ ''.pvar'' @ (if vzs then ''.zst'' else '''') :=
        files w' (path_str (filename self) @ ''.pvar'' @ (if vzs then ''.zst'' else '''')))"
    and "r \<noteq> None \<Longrightarrow> w' = w"
  using assms
  by (auto simp: write_pvar_def open_write_def Let_def split: sum.splits if_splits)

lemma write_psam_effect:
  assumes "write_psam E self w = (r, w')"
  shows "pgenlib_calls w' = pgenlib_calls w" and "r \<noteq> None \<Longrightarrow> w' = w"
  using assms
  by (auto simp: write_psam_def open_write_def split: sum.splits if_splits)

text \<open>
  C9. \<^verbatim>\<open>write\<close> runs \<^verbatim>\<open>write_pvar\<close>, then \<^verbatim>\<open>write_psam\<close>, then \<^verbatim>\<open>write_pgen\<close>. If
  \<^verbatim>\<open>write_pvar\<close> raises, or it returns and \<^verbatim>\<open>write_psam\<close> raises, then \<^verbatim>\<open>write\<close> raises that
  error, no call into the binary writer has been made (so no binary content was produced
  or altered), and the only file that can differ from before is the variant sidecar.
\<close>

theorem sidecar_failure_leaves_pgen_untouched:
  assumes run: "PGENWriter_write E self vzs w = (r, self', w')"
    and fail: "write_pvar E self' vzs w = (Some e, w1) \<or>
               (write_pvar E self' vzs w = (None, w1) \<and> write_psam E self' w1 = (Some e, w2))"
  shows "r = Some e \<and>
     pgenlib_calls w' = pgenlib_calls w \<and>
     files w' =
       (files w)(path_str (filename self') @ ''.pvar'' @ (if vzs then ''.zst'' else '''') :=
         files w' (path_str (filename self') @ ''.pvar'' @ (if vzs then ''.zst'' else '''')))"
proof -
  obtain f where f: "strip_extension (filename self) = Inr f"
    using strip_extension_total by blast
  let ?s = "self\<lparr> filename := f, file_extension := Some ''.pgen'' \<rparr>"
  from run f have s': "self' = ?s"
    by (auto simp: PGENWriter_write_def Let_def split: prod.splits option.splits)
  from fail show ?thesis
  proof
    assume pv: "write_pvar E self' vzs w = (Some e, w1)"
    with run f s' have "r = Some e" "w' = w1"
      by (simp_all add: PGENWriter_write_def Let_def)
    with write_pvar_effect [OF pv] show ?thesis by simp
  next
    assume "write_pvar E self' vzs w = (None, w1) \<and> write_psam E self' w1 = (Some e, w2)"
    then have pv: "write_pvar E self' vzs w = (None, w1)"
      and ps: "write_psam E self' w1 = (Some e, w2)" by simp_all
    with run f s' have "r = Some e" "w' = w2"
      by (simp_all add: PGENWriter_write_def Let_def)
    moreover from write_psam_effect [OF ps] have "w2 = w1" by simp
    ultimately show ?thesis using write_pvar_effect(1,2) [OF pv] by simp
  qed
qed

theorem sidecar_failure_leaves_pgen_untouched_witness:
  "PGENWriter_write ok_env (PGENWriter_init obj_ragged ''x.pgen'') False empty_world =
     (Some ShapeError,
      \<lparr> snpobj = obj_ragged, filename = \<lparr> root = '''', parts = [''x''] \<rparr>,
        file_extension = Some ''.pgen'' \<rparr>,
      empty_world) \<and>
   write_pvar ok_env
      \<lparr> snpobj = obj_ragged, filename = \<lparr> root = '''', parts = [''x''] \<rparr>,
        file_extension = Some ''.pgen'' \<rparr> False empty_world = (Some ShapeError, empty_world) \<and>
   pgenlib_calls empty_world = [] \<and>
   files empty_world ''x.psam'' = None"
proof -
  let ?S' = "\<lparr> snpobj = obj_ragged, filename = \<lparr> root = '''', parts = [''x''] \<rparr>,
        file_extension = Some ''.pgen'' \<rparr>"
  have pv: "write_pvar ok_env ?S' False empty_world = (Some ShapeError, empty_world)"
    by (simp add: writer_defs example_defs obj_ragged_def)
  have run: "PGENWriter_write ok_env (PGENWriter_init obj_ragged ''x.pgen'') False empty_world =
     (Some ShapeError, ?S', empty_world)"
    by (simp add: PGENWriter_write_def PGENWriter_init_def path_defs pv)
  from sidecar_failure_leaves_pgen_untouched [OF run disjI1 [OF pv]] run pv
  show ?thesis by (simp add: empty_world_def)
qed

end
